theory Spec2Isabelle
  imports Main "HOL-Library.Sublist"
begin

section \<open>Python strings\<close>

text \<open>
  A Python \<open>str\<close> is a sequence of code points. It is modelled as a HOL \<open>string\<close>
  whose characters are the code points below 256; file names, column names and model
  responses with code points beyond that range are outside the model. On this range
  \<open>str.lower\<close> works character by character and \<open>str.strip\<close> removes the twelve
  white-space code points listed in \<open>is_space\<close>.
\<close>

definition is_upper :: "char \<Rightarrow> bool" where
  "is_upper c =
     (let n = (of_char c :: nat)
      in (65 \<le> n \<and> n \<le> 90) \<or> (192 \<le> n \<and> n \<le> 222 \<and> n \<noteq> 215))"

definition lower_char :: "char \<Rightarrow> char" where
  "lower_char c = (if is_upper c then char_of ((of_char c :: nat) + 32) else c)"

text \<open>\<open>s.lower()\<close>\<close>

definition lower :: "string \<Rightarrow> string" where
  "lower s = map lower_char s"

definition is_space :: "char \<Rightarrow> bool" where
  "is_space c =
     (let n = (of_char c :: nat)
      in (9 \<le> n \<and> n \<le> 13) \<or> (28 \<le> n \<and> n \<le> 32) \<or> n = 133 \<or> n = 160)"

text \<open>\<open>s.strip()\<close>: white space is removed at both ends.\<close>

definition strip :: "string \<Rightarrow> string" where
  "strip s = rev (dropWhile is_space (rev (dropWhile is_space s)))"

text \<open>
  \<open>s.replace(old, new)\<close> scans from the left and replaces the occurrences of \<open>old\<close> that
  do not overlap an earlier replaced one. With an empty \<open>old\<close>, Python puts \<open>new\<close> before
  every character and at the end.
\<close>

fun replace_scan :: "string \<Rightarrow> string \<Rightarrow> string \<Rightarrow> string" where
  "replace_scan old new [] = []"
| "replace_scan old new (c # cs) =
     (if old \<noteq> [] \<and> prefix old (c # cs)
      then new @ replace_scan old new (drop (length old) (c # cs))
      else c # replace_scan old new cs)"

definition replace :: "string \<Rightarrow> string \<Rightarrow> string \<Rightarrow> string" where
  "replace old new s =
     (if old = [] then new @ concat (map (\<lambda>c. c # new) s) else replace_scan old new s)"

datatype error = Exception string

text \<open>
  \<open>s.split(sep)\<close> cuts at the occurrences of \<open>sep\<close>, scanning from the left; the pieces
  are never an empty list. An empty separator raises \<open>ValueError\<close>.
\<close>

fun split_scan :: "string \<Rightarrow> string \<Rightarrow> string \<Rightarrow> string list" where
  "split_scan sep cur [] = [cur]"
| "split_scan sep cur (c # cs) =
     (if sep \<noteq> [] \<and> prefix sep (c # cs)
      then cur # split_scan sep [] (drop (length sep) (c # cs))
      else split_scan sep (cur @ [c]) cs)"

definition split :: "string \<Rightarrow> string \<Rightarrow> error + string list" where
  "split sep s =
     (if sep = [] then Inl (Exception ''empty separator'') else Inr (split_scan sep [] s))"

text \<open>\<open>xs[0]\<close> raises \<open>IndexError\<close> on an empty list.\<close>

definition first :: "'a list \<Rightarrow> error + 'a" where
  "first xs =
     (case xs of [] \<Rightarrow> Inl (Exception ''list index out of range'') | x # _ \<Rightarrow> Inr x)"

text \<open>\<open>sep.join(xs)\<close>\<close>

fun join :: "string \<Rightarrow> string list \<Rightarrow> string" where
  "join sep [] = []"
| "join sep [x] = x"
| "join sep (x # y # ys) = x @ sep @ join sep (y # ys)"

definition nl :: string where
  "nl = [CHR 0x0A]"

section \<open>Tables, files and the libraries the script calls\<close>

text \<open>
  A pandas \<open>DataFrame\<close>: the column labels and the rows; the cell values are whatever
  pandas inferred and stay abstract. \<open>pd.DataFrame()\<close> has neither columns nor rows, and
  \<open>df.empty\<close> holds when either axis has length zero.
\<close>

record 'v DataFrame =
  columns :: "string list"
  rows :: "'v list list"

definition DataFrame_new :: "'v DataFrame" where
  "DataFrame_new = \<lparr>columns = [], rows = []\<rparr>"

definition df_empty :: "'v DataFrame \<Rightarrow> bool" where
  "df_empty df = (rows df = [] \<or> columns df = [])"

definition head :: "nat \<Rightarrow> 'v DataFrame \<Rightarrow> 'v DataFrame" where
  "head n df = df\<lparr>rows := take n (rows df)\<rparr>"

record uploaded_file =
  name :: string
  body :: string

text \<open>
  The calls that leave the script are parameters of the model:
  \<^item> \<open>read_csv\<close> is \<open>pd.read_csv\<close> on the bytes of an uploaded file: a table, or the
    exception it raises on a malformed or unreadable file;
  \<^item> \<open>to_sql_raises\<close> tells whether \<open>df.to_sql(table, conn, if_exists="replace")\<close> raises
    for this table name and table (a name or columns the engine refuses);
  \<^item> \<open>read_sql_query\<close> is \<open>pd.read_sql_query\<close> on a statement and the store;
  \<^item> \<open>create\<close> is \<open>client.chat.completions.create\<close>, from the system and the user message
    to the text of the first choice, or the exception of a failed call (a response
    without a text counts as one, since \<open>.strip()\<close> raises on it);
  \<^item> \<open>to_string\<close> is \<open>DataFrame.to_string(index=False)\<close>.
\<close>

record 'v env =
  read_csv :: "string \<Rightarrow> error + 'v DataFrame"
  to_sql_raises :: "string \<Rightarrow> 'v DataFrame \<Rightarrow> error option"
  read_sql_query :: "string \<Rightarrow> (string \<rightharpoonup> 'v DataFrame) \<Rightarrow> error + 'v DataFrame"
  create :: "string \<Rightarrow> string \<Rightarrow> error + string"
  to_string :: "'v DataFrame \<Rightarrow> string"

section \<open>Loading the uploaded files\<close>

text \<open>
  \<open>table = file.name.replace(".csv","").lower().replace(" ","_")\<close>
\<close>

definition table :: "string \<Rightarrow> string" where
  "table fname = replace '' '' ''_'' (lower (replace ''.csv'' [] fname))"

text \<open>
  \<open>df.columns = [c.strip().replace(" ", "_") for c in df.columns]\<close>
\<close>

definition column :: "string \<Rightarrow> string" where
  "column c = replace '' '' ''_'' (strip c)"

definition set_columns :: "'v DataFrame \<Rightarrow> 'v DataFrame" where
  "set_columns df = df\<lparr>columns := map column (columns df)\<rparr>"

text \<open>The line \<open>f"{table}({', '.join(df.columns)})\n"\<close> added to the schema text.\<close>

definition schema_line :: "string \<Rightarrow> 'v DataFrame \<Rightarrow> string" where
  "schema_line t df = t @ ''('' @ join '', '' (columns df) @ '')'' @ nl"

text \<open>
  The state of the loop: the in-memory store \<open>conn\<close>, from table names to tables, and the
  text \<open>schema\<close>. \<open>to_sql\<close> with \<open>if_exists="replace"\<close> drops a table of the same name and
  writes the new one.
\<close>

record 'v loaded =
  conn :: "string \<rightharpoonup> 'v DataFrame"
  schema :: string

definition initial :: "'v loaded" where
  "initial = \<lparr>conn = Map.empty, schema = []\<rparr>"

text \<open>One round of \<open>for file in files\<close>. Nothing catches an exception here.\<close>

definition load_file :: "'v env \<Rightarrow> 'v loaded \<Rightarrow> uploaded_file \<Rightarrow> error + 'v loaded" where
  "load_file env st file =
     (case read_csv env (body file) of
        Inl e \<Rightarrow> Inl e
      | Inr df0 \<Rightarrow>
          (let t = table (name file);
               df = set_columns df0
           in case to_sql_raises env t df of
                Some e \<Rightarrow> Inl e
              | None \<Rightarrow>
                  Inr \<lparr>conn = (conn st)(t \<mapsto> df),
                       schema = schema st @ schema_line t df\<rparr>))"

fun load_files :: "'v env \<Rightarrow> 'v loaded \<Rightarrow> uploaded_file list \<Rightarrow> error + 'v loaded" where
  "load_files env st [] = Inr st"
| "load_files env st (file # files) =
     (case load_file env st file of
        Inl e \<Rightarrow> Inl e
      | Inr st' \<Rightarrow> load_files env st' files)"

section \<open>Running a statement\<close>

text \<open>
  \<open>run_sql\<close> returns the table of the statement; on an exception it shows
  \<open>f"SQL Error: {e}"\<close> with \<open>st.error\<close> and returns \<open>pd.DataFrame()\<close>. The messages shown
  with \<open>st.error\<close> are the list \<open>shown\<close>.
\<close>

definition run_sql ::
  "'v env \<Rightarrow> (string \<rightharpoonup> 'v DataFrame) \<Rightarrow> string list \<Rightarrow> string \<Rightarrow> 'v DataFrame \<times> string list" where
  "run_sql env store shown query =
     (case read_sql_query env query store of
        Inr df \<Rightarrow> (df, shown)
      | Inl (Exception e) \<Rightarrow> (DataFrame_new, shown @ [''SQL Error: '' @ e]))"

section \<open>The external model\<close>

text \<open>
  Every call of the model is recorded: \<open>sent\<close> is the list of the prompts sent so far.
\<close>

definition system_message :: string where
  "system_message = ''You are a SQL and business analytics expert.''"

definition call_ai :: "'v env \<Rightarrow> string list \<Rightarrow> string \<Rightarrow> (error + string) \<times> string list" where
  "call_ai env sent prompt =
     (case create env system_message prompt of
        Inl e \<Rightarrow> (Inl e, sent @ [prompt])
      | Inr content \<Rightarrow> (Inr (strip content), sent @ [prompt]))"

definition ask_prompt :: "string \<Rightarrow> string \<Rightarrow> string" where
  "ask_prompt schema_text question =
     concat [nl, ''You are a data analyst.'', nl, nl,
       ''Here is the database schema:'', nl, schema_text, nl, nl,
       ''Rules:'', nl,
       ''- Use only these tables and columns'', nl,
       ''- Use table.column format'', nl,
       ''- No guessing columns'', nl,
       ''- If revenue not present, calculate as quantity * price'', nl,
       ''- Write ONE SQLite query'', nl,
       ''- No explanation'', nl, nl,
       ''User question:'', nl, question, nl]"

definition fence_sql :: string where
  "fence_sql = [CHR 0x60, CHR 0x60, CHR 0x60] @ ''sql''"

definition fence :: string where
  "fence = [CHR 0x60, CHR 0x60, CHR 0x60]"

text \<open>
  \<open>raw.replace("```sql","").replace("```","").strip()\<close>, then
  \<open>raw.split(";")[0] + ";"\<close>.
\<close>

definition ask_ai ::
  "'v env \<Rightarrow> string \<Rightarrow> string list \<Rightarrow> string \<Rightarrow> (error + string) \<times> string list" where
  "ask_ai env schema_text sent question =
     (case call_ai env sent (ask_prompt schema_text question) of
        (Inl e, sent') \<Rightarrow> (Inl e, sent')
      | (Inr raw, sent') \<Rightarrow>
          (let raw' = strip (replace fence [] (replace fence_sql [] raw))
           in case split '';'' raw' of
                Inl e \<Rightarrow> (Inl e, sent')
              | Inr parts \<Rightarrow>
                  (case first parts of
                     Inl e \<Rightarrow> (Inl e, sent')
                   | Inr p \<Rightarrow> (Inr (p @ '';''), sent'))))"

text \<open>
  The en dash of the template (code point U+2013, between \<open>2\<close> and \<open>3 sentence\<close>) lies
  beyond the code points of the model and is written as its three UTF-8 bytes.
\<close>

definition en_dash :: string where
  "en_dash = [CHR 0xE2, CHR 0x80, CHR 0x93]"

definition explain_prompt :: "string \<Rightarrow> string" where
  "explain_prompt preview =
     concat [nl, ''You are a senior business analyst.'', nl, nl,
       ''Here is a table of results:'', nl, preview, nl, nl,
       ''Write a clear 2'', en_dash, ''3 sentence business summary.'', nl,
       ''Do not mention SQL.'', nl,
       ''Do not repeat the numbers exactly.'', nl,
       ''Explain what this means for the business.'', nl]"

definition explain ::
  "'v env \<Rightarrow> string list \<Rightarrow> 'v DataFrame \<Rightarrow> (error + string) \<times> string list" where
  "explain env sent df =
     (if df_empty df then (Inr ''No data was returned for this question.'', sent)
      else call_ai env sent (explain_prompt (to_string env (head 10 df))))"

section \<open>The words of the claims\<close>

text \<open>
  For comparison with the code, the claims' own words as definitions. \<open>pat\<close> occurs in
  \<open>s\<close> at position \<open>i\<close> when the characters of \<open>s\<close> from \<open>i\<close> on begin with \<open>pat\<close>; a
  position of \<open>s\<close> is covered when it lies inside an occurrence; deleting every
  occurrence of \<open>pat\<close> keeps the characters at the positions that are not covered.
\<close>

definition occurs_at :: "string \<Rightarrow> string \<Rightarrow> nat \<Rightarrow> bool" where
  "occurs_at pat s i = (take (length pat) (drop i s) = pat)"

definition covered :: "string \<Rightarrow> string \<Rightarrow> nat \<Rightarrow> bool" where
  "covered pat s j = list_ex (\<lambda>i. occurs_at pat s i \<and> j < i + length pat) [0..<Suc j]"

definition delete_occurrences :: "string \<Rightarrow> string \<Rightarrow> string" where
  "delete_occurrences pat s =
     map (\<lambda>j. s ! j) (filter (\<lambda>j. \<not> covered pat s j) [0..<length s])"



section \<open>Example inputs\<close>

text \<open>
  A small environment for concrete runs: \<open>read_csv\<close> looks the bytes of a file up in a
  table of parsed files and raises on anything else, \<open>to_sql\<close> never raises, a statement
  that is the name of a stored table returns that table and any other statement raises,
  and the model answers every prompt with \<open>reply\<close>.
\<close>

definition example_env :: "(string \<times> nat DataFrame) list \<Rightarrow> error + string \<Rightarrow> nat env" where
  "example_env parsed reply =
     \<lparr>read_csv = (\<lambda>b. case map_of parsed b of
                            None \<Rightarrow> Inl (Exception ''No columns to parse from file'')
                          | Some df \<Rightarrow> Inr df),
      to_sql_raises = (\<lambda>t df. None),
      read_sql_query = (\<lambda>q store. case store q of
                            None \<Rightarrow> Inl (Exception (''no such table: '' @ q))
                          | Some df \<Rightarrow> Inr df),
      create = (\<lambda>sys prompt. reply),
      to_string = (\<lambda>df. join '' '' (columns df))\<rparr>"

definition two_statements :: string where
  "two_statements = fence_sql @ '' SELECT 1; SELECT 2;'' @ fence"

definition sales_file :: uploaded_file where
  "sales_file = \<lparr>name = ''sales.csv'', body = ''Date, Product, Quantity, Price''\<rparr>"

definition sales_parsed :: "nat DataFrame" where
  "sales_parsed =
     \<lparr>columns = [''Date'', '' Product'', '' Quantity'', '' Price''], rows = [[1, 2, 3, 4]]\<rparr>"

definition broken_file :: uploaded_file where
  "broken_file = \<lparr>name = ''broken.csv'', body = []\<rparr>"

definition timeout_env :: "nat env" where
  "timeout_env = example_env [] (Inl (Exception ''Request timed out.''))"


definition region_parsed :: "nat DataFrame" where
  "region_parsed = \<lparr>columns = [''region''], rows = [[7], [8]]\<rparr>"

definition small_file :: uploaded_file where
  "small_file = \<lparr>name = ''sales.csv'', body = ''product''\<rparr>"

definition product_parsed :: "nat DataFrame" where
  "product_parsed = \<lparr>columns = [''product''], rows = [[9]]\<rparr>"

definition loader_env :: "nat env" where
  "loader_env =
     example_env
       [(''Date, Product, Quantity, Price'', sales_parsed),
        (''region'', region_parsed),
        (''product'', product_parsed)]
       (Inr [])"

definition sales_loaded :: "nat loaded" where
  "sales_loaded =
     \<lparr>conn = [''sales'' \<mapsto>
               \<lparr>columns = [''Date'', ''Product'', ''Quantity'', ''Price''],
                rows = [[1, 2, 3, 4]]\<rparr>],
      schema = ''sales(Date, Product, Quantity, Price)'' @ nl\<rparr>"

definition region_loaded :: "nat loaded" where
  "region_loaded =
     \<lparr>conn = [''sales'' \<mapsto> region_parsed], schema = ''sales(region)'' @ nl\<rparr>"




section \<open>Facts about the string operations\<close>

lemma replace_scan_hit:
  "old \<noteq> [] \<Longrightarrow> prefix old s \<Longrightarrow>
   replace_scan old new s = new @ replace_scan old new (drop (length old) s)"
  by (cases s) auto

lemma replace_scan_miss:
  "\<not> prefix old (c # cs) \<Longrightarrow> replace_scan old new (c # cs) = c # replace_scan old new cs"
  by simp





lemma hd_split_scan:
  "hd (split_scan [a] cur s) = cur @ takeWhile (\<lambda>c. c \<noteq> a) s"
  by (induction s arbitrary: cur) auto

lemma split_scan_not_Nil: "split_scan sep cur s \<noteq> []"
  by (induction sep cur s rule: split_scan.induct) auto

lemma first_split_scan:
  "first (split_scan [a] cur s) = Inr (cur @ takeWhile (\<lambda>c. c \<noteq> a) s)"
  using hd_split_scan [of a cur s] split_scan_not_Nil [of "[a]" cur s]
  by (cases "split_scan [a] cur s") (auto simp: first_def)

lemma count_takeWhile_neq: "count_list (takeWhile (\<lambda>c. c \<noteq> a) xs) a = 0"
  by (induction xs) auto


lemma sublist_strip: "sublist (strip s) s"
proof -
  have "sublist (rev (strip s)) (rev (dropWhile is_space s))"
    by (simp add: strip_def)
  then have "sublist (strip s) (dropWhile is_space s)"
    by (simp only: sublist_rev)
  then show ?thesis
    using sublist_dropWhile [of is_space s] sublist_order.order_trans by blast
qed

subsection \<open>Removing a run of three equal characters leaves no such run\<close>

lemma prefix1_replace_run:
  "prefix [b] (replace_scan [b, b, b] [] s) \<Longrightarrow> prefix [b] s"
  by (induction s) (auto split: if_splits)

lemma prefix2_replace_run:
  assumes p: "prefix [b, b] (replace_scan [b, b, b] [] s)"
  shows "prefix [b, b] s"
proof (cases s)
  case Nil with p show ?thesis by simp
next
  case (Cons c cs)
  show ?thesis
  proof (cases "prefix [b, b, b] s")
    case True
    then have "prefix ([b, b] @ [b]) s" by simp
    then show ?thesis by (rule append_prefixD)
  next
    case False
    then have r: "replace_scan [b, b, b] [] s = c # replace_scan [b, b, b] [] cs"
      unfolding Cons by (rule replace_scan_miss)
    from p have "prefix [b, b] (c # replace_scan [b, b, b] [] cs)"
      unfolding r .
    then have "c = b" and "prefix [b] (replace_scan [b, b, b] [] cs)"
      by auto
    with prefix1_replace_run [of b cs] show ?thesis by (simp add: Cons)
  qed
qed

lemma no_run_replace_scan: "\<not> sublist [b, b, b] (replace_scan [b, b, b] [] s)"
proof (induction "length s" arbitrary: s rule: less_induct)
  case less
  show ?case
  proof (cases s)
    case Nil
    then show ?thesis by simp
  next
    case (Cons c cs)
    show ?thesis
    proof (cases "prefix [b, b, b] s")
      case True
      then have "replace_scan [b, b, b] [] s = replace_scan [b, b, b] [] (drop 3 s)"
        using replace_scan_hit [of "[b, b, b]" s "[]"] by (simp add: numeral_3_eq_3)
      moreover have "length (drop 3 s) < length s" by (simp add: Cons)
      ultimately show ?thesis using less by simp
    next
      case False
      then have r: "replace_scan [b, b, b] [] s = c # replace_scan [b, b, b] [] cs"
        unfolding Cons by (rule replace_scan_miss)
      have "\<not> prefix [b, b, b] (c # replace_scan [b, b, b] [] cs)"
      proof
        assume "prefix [b, b, b] (c # replace_scan [b, b, b] [] cs)"
        then have "c = b" and "prefix [b, b] (replace_scan [b, b, b] [] cs)"
          by auto
        with prefix2_replace_run [of b cs] have "prefix [b, b, b] s" by (simp add: Cons)
        with False show False ..
      qed
      moreover have "\<not> sublist [b, b, b] (replace_scan [b, b, b] [] cs)"
        using less [of cs] by (simp add: Cons)
      ultimately show ?thesis by (simp add: r sublist_Cons_right)
    qed
  qed
qed

lemma no_fence_replace: "\<not> sublist fence (replace fence [] s)"
  using no_run_replace_scan [of "CHR 0x60" s] by (simp add: replace_def fence_def)

lemma no_fence_snoc:
  "\<not> sublist fence p \<Longrightarrow> \<not> sublist fence (p @ '';'')"
  by (auto simp: sublist_snoc fence_def suffix_def)

lemma no_fence_first_statement:
  "\<not> sublist fence (takeWhile (\<lambda>c. c \<noteq> CHR '';'') (strip (replace fence [] x)) @ '';'')"
proof -
  let ?x = "replace fence [] x"
  have "\<not> sublist fence (strip ?x)"
    using no_fence_replace sublist_strip sublist_order.order_trans by blast
  moreover have "sublist (takeWhile (\<lambda>c. c \<noteq> CHR '';'') (strip ?x)) (strip ?x)"
    by simp
  ultimately have "\<not> sublist fence (takeWhile (\<lambda>c. c \<noteq> CHR '';'') (strip ?x))"
    using sublist_order.order_trans by blast
  then show ?thesis
    by (rule no_fence_snoc)
qed

section \<open>The statement returned by \<open>ask_ai\<close>\<close>

lemma ask_ai_success:
  assumes "create env system_message (ask_prompt sc q) = Inr raw"
  shows "ask_ai env sc sent q =
           (Inr (takeWhile (\<lambda>c. c \<noteq> CHR '';'')
                   (strip (replace fence [] (replace fence_sql [] (strip raw)))) @ '';''),
            sent @ [ask_prompt sc q])"
  using assms
  by (simp add: ask_ai_def call_ai_def split_def first_split_scan)

lemma first_statement_example:
  "takeWhile (\<lambda>c. c \<noteq> CHR '';'')
     (strip (replace fence [] (replace fence_sql [] (strip two_statements)))) @ '';''
   = ''SELECT 1;''"
  by (simp add: two_statements_def fence_sql_def fence_def strip_def is_space_def replace_def)

text \<open>
  C1. Whenever the model answers, with any text \<open>raw\<close>, \<open>ask_ai\<close> returns a text: the
  answer stripped, with the occurrences of the fence with \<open>sql\<close> and then of the bare
  fence removed, stripped again, cut before its first \<open>;\<close>, with \<open>;\<close> appended. That text
  ends in \<open>;\<close>, holds exactly one \<open>;\<close> and no fence, and for the answer made of the fence
  with \<open>sql\<close>, \<open>SELECT 1; SELECT 2;\<close> and the fence it is \<open>SELECT 1;\<close>.
\<close>

theorem ask_ai_single_statement:
  assumes "create env system_message (ask_prompt sc q) = Inr raw"
  shows "\<exists>out. ask_ai env sc sent q = (Inr out, sent @ [ask_prompt sc q])
           \<and> out = takeWhile (\<lambda>c. c \<noteq> CHR '';'')
                     (strip (replace fence [] (replace fence_sql [] (strip raw)))) @ '';''
           \<and> last out = CHR '';''
           \<and> count_list out (CHR '';'') = 1
           \<and> \<not> sublist fence out
           \<and> (raw = two_statements \<longrightarrow> out = ''SELECT 1;'')"
proof -
  let ?out = "takeWhile (\<lambda>c. c \<noteq> CHR '';'')
                (strip (replace fence [] (replace fence_sql [] (strip raw)))) @ '';''"
  have "ask_ai env sc sent q = (Inr ?out, sent @ [ask_prompt sc q])"
    using assms by (rule ask_ai_success)
  moreover have "last ?out = CHR '';''" by simp
  moreover have "count_list ?out (CHR '';'') = 1" by (simp add: count_takeWhile_neq)
  moreover have "\<not> sublist fence ?out" by (rule no_fence_first_statement)
  moreover have "raw = two_statements \<longrightarrow> ?out = ''SELECT 1;''"
    using first_statement_example by blast
  ultimately show ?thesis by blast
qed

theorem ask_ai_single_statement_witness:
  "create (example_env [] (Inr two_statements)) system_message (ask_prompt ''t(a)'' ''q'')
     = Inr two_statements
   \<and> fst (ask_ai (example_env [] (Inr two_statements)) ''t(a)'' [] ''q'') = Inr ''SELECT 1;''"
proof -
  have h: "create (example_env [] (Inr two_statements)) system_message (ask_prompt ''t(a)'' ''q'')
             = Inr two_statements"
    by (simp add: example_env_def)
  from ask_ai_single_statement [OF h, of "[]"] show ?thesis
    using h by auto
qed

section \<open>Failures of the statement and of the model\<close>

text \<open>
  C2. Whenever running the statement raises, with any message \<open>e\<close>, \<open>run_sql\<close> returns the
  table without columns and without rows and shows one more message, the text
  \<open>SQL Error: \<close> followed by \<open>e\<close>, which is not empty. \<open>run_sql\<close> has no failing result:
  it always returns a table and the messages shown.
\<close>

theorem run_sql_catches:
  assumes "read_sql_query env query store = Inl (Exception e)"
  shows "run_sql env store shown query = (DataFrame_new, shown @ [''SQL Error: '' @ e])
         \<and> columns (fst (run_sql env store shown query)) = []
         \<and> rows (fst (run_sql env store shown query)) = []
         \<and> df_empty (fst (run_sql env store shown query))
         \<and> last (snd (run_sql env store shown query)) \<noteq> []"
  using assms by (simp add: run_sql_def DataFrame_new_def df_empty_def)

theorem run_sql_catches_witness:
  "read_sql_query (example_env [] (Inr [])) ''SELEC 1;'' Map.empty
     = Inl (Exception ''no such table: SELEC 1;'')
   \<and> run_sql (example_env [] (Inr [])) Map.empty [] ''SELEC 1;''
     = (DataFrame_new, [''SQL Error: no such table: SELEC 1;''])"
proof -
  have h: "read_sql_query (example_env [] (Inr [])) ''SELEC 1;'' Map.empty
             = Inl (Exception ''no such table: SELEC 1;'')"
    by (simp add: example_env_def)
  from run_sql_catches [OF h, of "[]"] show ?thesis
    using h by simp
qed

text \<open>
  C3. On a table that is empty (no rows, or no columns) \<open>explain\<close> returns the text
  \<open>No data was returned for this question.\<close> and the list of prompts sent to the model
  is unchanged; on any other table exactly one prompt is sent. So the model is called
  if and only if the table is not empty.
\<close>

theorem explain_empty_no_call:
  "(rows df = [] \<longrightarrow>
      explain env sent df = (Inr ''No data was returned for this question.'', sent))
   \<and> (df_empty df \<longrightarrow>
      explain env sent df = (Inr ''No data was returned for this question.'', sent))
   \<and> (\<not> df_empty df \<longrightarrow>
      snd (explain env sent df) = sent @ [explain_prompt (to_string env (head 10 df))])
   \<and> (snd (explain env sent df) \<noteq> sent \<longleftrightarrow> \<not> df_empty df)"
  by (simp add: explain_def call_ai_def df_empty_def split: sum.splits)

theorem explain_empty_no_call_witness:
  "rows (DataFrame_new :: nat DataFrame) = []
   \<and> explain (example_env [] (Inr ''Sales grew.'')) [] DataFrame_new
       = (Inr ''No data was returned for this question.'', [])
   \<and> \<not> df_empty sales_parsed
   \<and> length (snd (explain (example_env [] (Inr ''Sales grew.'')) [] sales_parsed)) = 1"
  using explain_empty_no_call [of DataFrame_new "example_env [] (Inr ''Sales grew.'')" "[]"]
    explain_empty_no_call [of sales_parsed "example_env [] (Inr ''Sales grew.'')" "[]"]
  by (simp add: DataFrame_new_def sales_parsed_def df_empty_def)

text \<open>
  C8. When the call of the model raises \<open>e\<close>, \<open>ask_ai\<close> raises \<open>e\<close>, and so does
  \<open>explain\<close> on a table that is not empty: neither returns a text, empty or not.
\<close>

theorem model_failure_propagates:
  "(create env system_message (ask_prompt sc q) = Inl e \<longrightarrow>
      fst (ask_ai env sc sent q) = Inl e
      \<and> (\<forall>out. fst (ask_ai env sc sent q) \<noteq> Inr out))
   \<and> (\<not> df_empty df
        \<and> create env system_message (explain_prompt (to_string env (head 10 df))) = Inl e \<longrightarrow>
      fst (explain env sent df) = Inl e
      \<and> (\<forall>out. fst (explain env sent df) \<noteq> Inr out))"
  by (simp add: ask_ai_def explain_def call_ai_def)

theorem model_failure_propagates_witness:
  "create timeout_env system_message (ask_prompt ''t(a)'' ''q'') = Inl (Exception ''Request timed out.'')
   \<and> fst (ask_ai timeout_env ''t(a)'' [] ''q'') = Inl (Exception ''Request timed out.'')
   \<and> \<not> df_empty sales_parsed
   \<and> create timeout_env system_message (explain_prompt (to_string timeout_env (head 10 sales_parsed)))
       = Inl (Exception ''Request timed out.'')
   \<and> fst (explain timeout_env [] sales_parsed) = Inl (Exception ''Request timed out.'')"
proof -
  have h1: "create timeout_env system_message (ask_prompt ''t(a)'' ''q'')
              = Inl (Exception ''Request timed out.'')"
    by (simp add: timeout_env_def example_env_def)
  have h2: "\<not> df_empty sales_parsed"
    by (simp add: sales_parsed_def df_empty_def)
  have h3: "create timeout_env system_message
              (explain_prompt (to_string timeout_env (head 10 sales_parsed)))
              = Inl (Exception ''Request timed out.'')"
    by (simp add: timeout_env_def example_env_def)
  from model_failure_propagates
         [of timeout_env "''t(a)''" "''q''" "Exception ''Request timed out.''" "[]" sales_parsed]
  show ?thesis using h1 h2 h3 by simp
qed

section \<open>The loading loop\<close>

lemmas string_eval =
  table_def column_def replace_def lower_def lower_char_def is_upper_def strip_def
  is_space_def char_of_def bit_Suc_0_iff


lemma load_files_append:
  "load_files env st (xs @ ys) =
     (case load_files env st xs of Inl e \<Rightarrow> Inl e | Inr st' \<Rightarrow> load_files env st' ys)"
  by (induction xs arbitrary: st) (auto split: sum.splits)




lemma load_sales: "load_files loader_env initial [sales_file] = Inr sales_loaded"
  by (simp add: load_file_def loader_env_def example_env_def initial_def sales_file_def
      sales_parsed_def sales_loaded_def set_columns_def schema_line_def string_eval)


text \<open>
  C4, as stated, fails: loading \<open>sales.csv\<close> with the header
  \<open>Date, Product, Quantity, Price\<close> gives the table \<open>sales\<close> with the columns
  \<open>Date\<close>, \<open>Product\<close>, \<open>Quantity\<close>, \<open>Price\<close>, not their lower-case forms.
\<close>

theorem sales_columns_not_lowered:
  "load_files loader_env initial [sales_file] = Inr sales_loaded
   \<and> map_option columns (conn sales_loaded ''sales'')
       = Some [''Date'', ''Product'', ''Quantity'', ''Price'']
   \<and> map_option columns (conn sales_loaded ''sales'')
       \<noteq> Some [''date'', ''product'', ''quantity'', ''price'']"
  using load_sales by (simp add: sales_loaded_def)

text \<open>
  C4, amended. Loading a file named \<open>sales.csv\<close> whose header gives the columns \<open>Date\<close>,
  \<open>Product\<close>, \<open>Quantity\<close>, \<open>Price\<close>, each with or without white space around it, and
  which the store accepts, produces the table \<open>sales\<close> with exactly the columns \<open>Date\<close>,
  \<open>Product\<close>, \<open>Quantity\<close>, \<open>Price\<close>: the case of the letters is kept.
\<close>

theorem sales_columns_keep_case:
  assumes "name file = ''sales.csv''"
    and "read_csv env (body file) = Inr df"
    and "map strip (columns df) = [''Date'', ''Product'', ''Quantity'', ''Price'']"
    and "to_sql_raises env ''sales'' (set_columns df) = None"
  shows "load_file env st file =
           Inr \<lparr>conn = (conn st)(''sales'' \<mapsto>
                          df\<lparr>columns := [''Date'', ''Product'', ''Quantity'', ''Price'']\<rparr>),
                schema = schema st @ ''sales(Date, Product, Quantity, Price)'' @ nl\<rparr>"
proof -
  have t: "table (name file) = ''sales''"
    by (simp add: assms(1) string_eval)
  have "map column (columns df) = map (replace '' '' ''_'') (map strip (columns df))"
    by (simp add: column_def)
  also have "\<dots> = [''Date'', ''Product'', ''Quantity'', ''Price'']"
    by (simp add: assms(3) replace_def)
  finally have c: "set_columns df = df\<lparr>columns := [''Date'', ''Product'', ''Quantity'', ''Price'']\<rparr>"
    by (simp add: set_columns_def)
  show ?thesis
    using assms(2) assms(4) by (simp add: load_file_def t c schema_line_def)
qed

theorem sales_columns_keep_case_witness:
  "load_file loader_env initial sales_file = Inr sales_loaded"
proof -
  have 1: "name sales_file = ''sales.csv''" by (simp add: sales_file_def)
  have 2: "read_csv loader_env (body sales_file) = Inr sales_parsed"
    by (simp add: loader_env_def example_env_def sales_file_def)
  have 3: "map strip (columns sales_parsed) = [''Date'', ''Product'', ''Quantity'', ''Price'']"
    by (simp add: sales_parsed_def strip_def is_space_def)
  have 4: "to_sql_raises loader_env ''sales'' (set_columns sales_parsed) = None"
    by (simp add: loader_env_def example_env_def)
  from sales_columns_keep_case [OF 1 2 3 4, of initial] show ?thesis
    by (simp add: initial_def sales_loaded_def sales_parsed_def)
qed

text \<open>
  C6, as stated, fails: \<open>sales.csv\<close> alone loads, but in a batch behind a file that
  \<open>read_csv\<close> cannot read the whole loop ends with the exception of that file.
\<close>

theorem unreadable_file_stops_batch:
  "load_files loader_env initial [sales_file] = Inr sales_loaded
   \<and> load_files loader_env initial [broken_file, sales_file]
       = Inl (Exception ''No columns to parse from file'')"
  using load_sales
  by (simp add: load_file_def loader_env_def example_env_def broken_file_def)

text \<open>
  C6, amended. When \<open>read_csv\<close> raises on an uploaded file, after the files before it
  have loaded, the loading loop ends there with that exception, whatever files follow
  in the batch: no later file is loaded and the loop is not completed.
\<close>

theorem unreadable_file_aborts:
  assumes "load_files env st before = Inr st1"
    and "read_csv env (body file) = Inl e"
  shows "load_files env st (before @ file # after) = Inl e"
  using assms by (simp add: load_files_append load_file_def)

theorem unreadable_file_aborts_witness:
  "load_files loader_env initial [sales_file] = Inr sales_loaded
   \<and> read_csv loader_env (body broken_file) = Inl (Exception ''No columns to parse from file'')
   \<and> load_files loader_env initial ([sales_file] @ broken_file # [small_file])
       = Inl (Exception ''No columns to parse from file'')"
proof -
  have 2: "read_csv loader_env (body broken_file) = Inl (Exception ''No columns to parse from file'')"
    by (simp add: loader_env_def example_env_def broken_file_def)
  from unreadable_file_aborts [OF load_sales 2, of "[small_file]"] load_sales 2
  show ?thesis by simp
qed

text \<open>
  C9. When a file loads whose table name is that of a table already in the store, the
  store then holds under that name the table of the new file: its columns are the
  normalised columns of the new file and its rows are exactly the rows read from the
  new file, whatever the old table was. Every other table is unchanged.
\<close>

theorem reupload_replaces:
  assumes "conn st (table (name file)) = Some old"
    and "read_csv env (body file) = Inr df"
    and "to_sql_raises env (table (name file)) (set_columns df) = None"
  shows "\<exists>st'. load_file env st file = Inr st'
           \<and> conn st' (table (name file)) = Some (set_columns df)
           \<and> rows (set_columns df) = rows df
           \<and> (\<forall>t. t \<noteq> table (name file) \<longrightarrow> conn st' t = conn st t)"
  using assms(2) assms(3) by (simp add: load_file_def set_columns_def Let_def)

theorem reupload_replaces_witness:
  "conn region_loaded (table (name small_file)) = Some region_parsed
   \<and> rows region_parsed = [[7], [8]]
   \<and> (\<exists>st'. load_file loader_env region_loaded small_file = Inr st'
         \<and> map_option rows (conn st' ''sales'') = Some [[9]])"
proof -
  have t: "table (name small_file) = ''sales''"
    by (simp add: small_file_def string_eval)
  have 1: "conn region_loaded (table (name small_file)) = Some region_parsed"
    by (simp add: t region_loaded_def)
  have 2: "read_csv loader_env (body small_file) = Inr product_parsed"
    by (simp add: loader_env_def example_env_def small_file_def)
  have 3: "to_sql_raises loader_env (table (name small_file)) (set_columns product_parsed) = None"
    by (simp add: loader_env_def example_env_def)
  from reupload_replaces [OF 1 2 3] obtain st' where
    "load_file loader_env region_loaded small_file = Inr st'"
    "conn st' (table (name small_file)) = Some (set_columns product_parsed)"
    by blast
  then have "load_file loader_env region_loaded small_file = Inr st'
      \<and> map_option rows (conn st' ''sales'') = Some [[9]]"
    by (simp add: t set_columns_def product_parsed_def)
  then show ?thesis using 1 by (auto simp: region_parsed_def)
qed











section \<open>The table name and the column names\<close>

lemma covered_iff:
  "covered pat s j \<longleftrightarrow> (\<exists>i\<le>j. occurs_at pat s i \<and> j < i + length pat)"
  unfolding covered_def list_ex_iff by (auto simp: less_Suc_eq_le simp del: upt_Suc)

lemma occurs_at_0: "occurs_at pat s 0 \<longleftrightarrow> prefix pat s"
  unfolding occurs_at_def
  by (metis append_eq_conv_conj drop0 prefix_def take_is_prefix)

lemma occurs_at_Suc: "occurs_at pat (c # cs) (Suc i) = occurs_at pat cs i"
  by (simp add: occurs_at_def)

lemma keep_Cons:
  "map (\<lambda>j. (c # cs) ! j) (filter P [0..<Suc n]) =
     (if P 0 then [c] else []) @ map (\<lambda>j. cs ! j) (filter (\<lambda>j. P (Suc j)) [0..<n])"
proof -
  have "[0..<Suc n] = 0 # map Suc [0..<n]"
    by (simp add: upt_conv_Cons map_Suc_upt del: upt_Suc)
  then show ?thesis
    by (simp add: filter_map o_def del: upt_Suc)
qed

lemma covered_miss_0: "\<not> prefix pat s \<Longrightarrow> \<not> covered pat s 0"
  by (simp add: covered_iff occurs_at_0)

lemma covered_miss_Suc:
  assumes "\<not> prefix pat (c # cs)"
  shows "covered pat (c # cs) (Suc j) = covered pat cs j"
proof
  assume "covered pat (c # cs) (Suc j)"
  then obtain i where i: "i \<le> Suc j" "occurs_at pat (c # cs) i" "Suc j < i + length pat"
    by (auto simp: covered_iff)
  have "i \<noteq> 0"
  proof
    assume "i = 0"
    with i(2) have "prefix pat (c # cs)" by (simp add: occurs_at_0)
    with assms show False ..
  qed
  then obtain k where "i = Suc k" by (cases i) auto
  with i show "covered pat cs j" by (auto simp: covered_iff occurs_at_Suc)
next
  assume "covered pat cs j"
  then obtain k where "k \<le> j" "occurs_at pat cs k" "j < k + length pat"
    by (auto simp: covered_iff)
  then have "Suc k \<le> Suc j \<and> occurs_at pat (c # cs) (Suc k) \<and> Suc j < Suc k + length pat"
    by (simp add: occurs_at_Suc)
  then show "covered pat (c # cs) (Suc j)" unfolding covered_iff by blast
qed

lemma delete_occurrences_miss:
  assumes "\<not> prefix pat (c # cs)"
  shows "delete_occurrences pat (c # cs) = c # delete_occurrences pat cs"
  unfolding delete_occurrences_def
  by (simp add: keep_Cons covered_miss_0 [OF assms] covered_miss_Suc [OF assms] del: upt_Suc)

lemma occurs_at_shift: "occurs_at pat (p @ r) (i + length p) = occurs_at pat r i"
  by (simp add: occurs_at_def)

lemma keep_append:
  "map (\<lambda>j. (p @ r) ! j) (filter P [0..<length p + length r]) =
     map (\<lambda>j. p ! j) (filter P [0..<length p]) @
     map (\<lambda>j. r ! j) (filter (\<lambda>j. P (j + length p)) [0..<length r])"
proof -
  have 1: "[0..<length p + length r] = [0..<length p] @ [length p..<length p + length r]"
    by (rule upt_add_eq_append) simp
  have 2: "map (\<lambda>j. j + length p) [0..<length r] = [length p..<length r + length p]"
    by (rule map_add_upt)
  have "[0..<length p + length r] = [0..<length p] @ map (\<lambda>j. j + length p) [0..<length r]"
    unfolding 2 using 1 by (simp only: add.commute)
  then show ?thesis
    by (simp add: filter_map o_def nth_append)
qed

lemma covered_first:
  assumes "j < length pat"
  shows "covered pat (pat @ r) j"
proof -
  have "occurs_at pat (pat @ r) 0" by (simp add: occurs_at_def)
  with assms show ?thesis unfolding covered_iff by auto
qed

lemma covered_shift:
  assumes U: "\<And>r i. occurs_at pat (pat @ r) i \<Longrightarrow> 0 < i \<Longrightarrow> length pat \<le> i"
  shows "covered pat (pat @ r) (j + length pat) = covered pat r j"
proof
  assume "covered pat (pat @ r) (j + length pat)"
  then obtain i where i: "i \<le> j + length pat" "occurs_at pat (pat @ r) i"
      "j + length pat < i + length pat"
    by (auto simp: covered_iff)
  then have "0 < i" by simp
  from U [OF i(2) this] obtain k where k: "i = k + length pat"
    by (metis le_add_diff_inverse2)
  from i(2) have "occurs_at pat r k" unfolding k by (simp only: occurs_at_shift)
  with i(1) i(3) k have "k \<le> j \<and> occurs_at pat r k \<and> j < k + length pat"
    by simp
  then show "covered pat r j" unfolding covered_iff by blast
next
  assume "covered pat r j"
  then obtain k where k: "k \<le> j" "occurs_at pat r k" "j < k + length pat"
    by (auto simp: covered_iff)
  have "occurs_at pat (pat @ r) (k + length pat)" using k(2) by (simp only: occurs_at_shift)
  with k have "k + length pat \<le> j + length pat \<and> occurs_at pat (pat @ r) (k + length pat)
      \<and> j + length pat < (k + length pat) + length pat"
    by simp
  then show "covered pat (pat @ r) (j + length pat)" unfolding covered_iff by blast
qed

lemma delete_occurrences_hit:
  assumes U: "\<And>r i. occurs_at pat (pat @ r) i \<Longrightarrow> 0 < i \<Longrightarrow> length pat \<le> i"
  shows "delete_occurrences pat (pat @ r) = delete_occurrences pat r"
proof -
  have "filter (\<lambda>j. \<not> covered pat (pat @ r) j) [0..<length pat] = []"
    by (simp add: filter_empty_conv covered_first)
  then show ?thesis
    unfolding delete_occurrences_def
    by (simp add: keep_append covered_shift [OF U])
qed

lemma replace_scan_deletes_unbordered:
  assumes U: "\<And>r i. occurs_at pat (pat @ r) i \<Longrightarrow> 0 < i \<Longrightarrow> length pat \<le> i"
    and ne: "pat \<noteq> []"
  shows "replace_scan pat [] s = delete_occurrences pat s"
proof (induction "length s" arbitrary: s rule: less_induct)
  case less
  show ?case
  proof (cases s)
    case Nil
    then show ?thesis by (simp add: delete_occurrences_def)
  next
    case (Cons c cs)
    show ?thesis
    proof (cases "prefix pat s")
      case True
      then obtain r where r: "s = pat @ r" by (auto simp: prefix_def)
      have "replace_scan pat [] s = replace_scan pat [] (drop (length pat) s)"
        using replace_scan_hit [OF ne True, of "[]"] by simp
      also have "\<dots> = replace_scan pat [] r" by (simp add: r)
      also have "\<dots> = delete_occurrences pat r" using less [of r] r ne by simp
      also have "\<dots> = delete_occurrences pat s"
        unfolding r by (rule delete_occurrences_hit [OF U, symmetric])
      finally show ?thesis .
    next
      case False
      then have np: "\<not> prefix pat (c # cs)" by (simp add: Cons)
      then have "replace_scan pat [] s = c # replace_scan pat [] cs"
        unfolding Cons by (rule replace_scan_miss)
      also have "\<dots> = c # delete_occurrences pat cs" using less [of cs] Cons by simp
      also have "\<dots> = delete_occurrences pat s"
        unfolding Cons by (rule delete_occurrences_miss [OF np, symmetric])
      finally show ?thesis .
    qed
  qed
qed

lemma no_overlap_csv:
  assumes "occurs_at ''.csv'' (''.csv'' @ r) i" and "0 < i"
  shows "length ''.csv'' \<le> i"
proof (rule ccontr)
  assume "\<not> length ''.csv'' \<le> i"
  with assms(2) have "i = 1 \<or> i = 2 \<or> i = 3" by auto
  with assms(1) show False
    by (auto simp: occurs_at_def numeral_2_eq_2 numeral_3_eq_3)
qed

lemma replace_scan_deletes:
  "replace_scan ''.csv'' [] s = delete_occurrences ''.csv'' s"
  by (rule replace_scan_deletes_unbordered) (erule no_overlap_csv, assumption, simp)

lemma table_example: "table ''a.csv b.csv'' = ''a_b''"
  by (simp add: string_eval)

text \<open>
  C10. For every file name, the table name is the file name with every occurrence of
  \<open>.csv\<close> deleted, wherever it stands, then lower-cased, then with spaces replaced by
  underscores; the file name \<open>a.csv b.csv\<close> gives the table name \<open>a_b\<close>.
\<close>

theorem table_deletes_every_csv:
  "table fname = replace '' '' ''_'' (lower (delete_occurrences ''.csv'' fname))
   \<and> table ''a.csv b.csv'' = ''a_b''"
  using table_example by (simp add: table_def replace_def replace_scan_deletes)











end
